theory Spec2Isabelle
  imports Complex_Main
begin

section \<open>Numbers and strings of the host language\<close>

text \<open>
  The handler of \<^verbatim>\<open>src/js/hotkey.js\<close> computes on JavaScript numbers. The
  attributes \<^verbatim>\<open>currentTime\<close>, \<^verbatim>\<open>playbackRate\<close> and the volume of a media
  element are finite numbers (WebIDL \<^verbatim>\<open>double\<close>) and are modelled as \<^typ>\<open>real\<close>.
  Where the handler rounds to hundredths (\<^verbatim>\<open>changeSpeed\<close>) every operation is
  rounded as double precision rounds it; the other sums and products are exact.
  Signed zeros are not modelled.
  \<^verbatim>\<open>duration\<close> is an \<^verbatim>\<open>unrestricted double\<close>: it is \<^verbatim>\<open>NaN\<close> while the
  length of the media is unknown and \<^verbatim>\<open>Infinity\<close> for an unbounded stream, so
  it has a type of its own with the special values.
\<close>

datatype jsnum = NaN | NegInf | Fin real | PosInf

text \<open>\<^verbatim>\<open>if (x)\<close> on a number: false for \<^verbatim>\<open>NaN\<close> and for zero.\<close>

fun truthy :: "jsnum \<Rightarrow> bool" where
  "truthy NaN = False"
| "truthy (Fin x) = (x \<noteq> 0)"
| "truthy NegInf = True"
| "truthy PosInf = True"

text \<open>\<^verbatim>\<open>a * b\<close>: zero times an infinity is \<^verbatim>\<open>NaN\<close>.\<close>

fun js_sgn_inf :: "real \<Rightarrow> jsnum \<Rightarrow> jsnum" where
  "js_sgn_inf a i =
     (if a = 0 then NaN
      else if 0 < a then i
      else (case i of PosInf \<Rightarrow> NegInf | NegInf \<Rightarrow> PosInf | other \<Rightarrow> other))"

fun js_mul :: "jsnum \<Rightarrow> jsnum \<Rightarrow> jsnum" where
  "js_mul NaN b = NaN"
| "js_mul a NaN = NaN"
| "js_mul (Fin a) (Fin b) = Fin (a * b)"
| "js_mul (Fin a) PosInf = js_sgn_inf a PosInf"
| "js_mul (Fin a) NegInf = js_sgn_inf a NegInf"
| "js_mul PosInf (Fin b) = js_sgn_inf b PosInf"
| "js_mul NegInf (Fin b) = js_sgn_inf b NegInf"
| "js_mul PosInf PosInf = PosInf"
| "js_mul NegInf NegInf = PosInf"
| "js_mul PosInf NegInf = NegInf"
| "js_mul NegInf PosInf = NegInf"

text \<open>\<^verbatim>\<open>a - b\<close>: the difference of two equal infinities is \<^verbatim>\<open>NaN\<close>.\<close>

fun js_sub :: "jsnum \<Rightarrow> jsnum \<Rightarrow> jsnum" where
  "js_sub NaN b = NaN"
| "js_sub a NaN = NaN"
| "js_sub (Fin a) (Fin b) = Fin (a - b)"
| "js_sub (Fin a) PosInf = NegInf"
| "js_sub (Fin a) NegInf = PosInf"
| "js_sub PosInf PosInf = NaN"
| "js_sub NegInf NegInf = NaN"
| "js_sub PosInf b = PosInf"
| "js_sub NegInf b = NegInf"

text \<open>\<^verbatim>\<open>a < b\<close>: every comparison with \<^verbatim>\<open>NaN\<close> is false.\<close>

fun js_lt :: "jsnum \<Rightarrow> jsnum \<Rightarrow> bool" where
  "js_lt NaN b = False"
| "js_lt a NaN = False"
| "js_lt (Fin a) (Fin b) = (a < b)"
| "js_lt a NegInf = False"
| "js_lt PosInf b = False"
| "js_lt NegInf b = True"
| "js_lt a PosInf = True"

text \<open>
  Double precision. A sum, product or quotient of doubles is the exact result
  rounded to the nearest double, a tie to the even neighbour. \<open>rd\<close> is that
  rounding at 53 significant bits: \<open>binexp x\<close> is the binary exponent of a
  positive \<open>x\<close> (\<open>2\<^sup>e \<le> x < 2\<^sup>e\<^sup>+\<^sup>1\<close>) and the doubles around \<open>x\<close> are the
  multiples of \<open>2\<^sup>e\<^sup>-\<^sup>5\<^sup>2\<close>. The exponent is not bounded here: where a sum is
  beyond the largest double (\<^verbatim>\<open>Infinity\<close> in JavaScript) or below the smallest
  normal one, \<^verbatim>\<open>changeSpeed\<close>, the one computation rounded with \<open>rd\<close>, clamps
  it to 2 or to 0.25 either way. A decimal literal of the source such as \<^verbatim>\<open>0.05\<close> is
  the double \<open>rd (5 / 100)\<close>.
\<close>

definition pow2 :: "int \<Rightarrow> real" where
  "pow2 e = (if 0 \<le> e then 2 ^ nat e else 1 / 2 ^ nat (- e))"

function binexp :: "real \<Rightarrow> int" where
  "binexp x =
     (if x \<le> 0 then 0
      else if 2 \<le> x then binexp (x / 2) + 1
      else if x < 1 then binexp (x * 2) - 1
      else 0)"
  by pat_completeness auto
termination
proof (relation "measure (\<lambda>x. if 1 \<le> x then nat \<lceil>x\<rceil> else nat \<lceil>1 / x\<rceil> + 2)")
  show "wf (measure (\<lambda>x. if 1 \<le> x then nat \<lceil>x\<rceil> else nat \<lceil>1 / x\<rceil> + 2))" by simp
next
  fix x :: real
  assume "\<not> x \<le> 0" "2 \<le> x"
  then have "\<lceil>x / 2\<rceil> < \<lceil>x\<rceil>" by linarith
  moreover have "0 < \<lceil>x\<rceil>" using \<open>2 \<le> x\<close> by linarith
  ultimately have "nat \<lceil>x / 2\<rceil> < nat \<lceil>x\<rceil>" by linarith
  then show "(x / 2, x) \<in> measure (\<lambda>x. if 1 \<le> x then nat \<lceil>x\<rceil> else nat \<lceil>1 / x\<rceil> + 2)"
    using \<open>2 \<le> x\<close> by simp
next
  fix x :: real
  assume pos: "\<not> x \<le> 0" and "\<not> 2 \<le> x" and small: "x < 1"
  from pos small have inv: "1 < 1 / x" by simp
  show "(x * 2, x) \<in> measure (\<lambda>x. if 1 \<le> x then nat \<lceil>x\<rceil> else nat \<lceil>1 / x\<rceil> + 2)"
  proof (cases "1 \<le> x * 2")
    case True
    have "\<lceil>x * 2\<rceil> \<le> 2" using small by linarith
    moreover have "2 \<le> \<lceil>1 / x\<rceil>" using inv by linarith
    ultimately have "nat \<lceil>x * 2\<rceil> < nat \<lceil>1 / x\<rceil> + 2" by linarith
    then show ?thesis using True small by simp
  next
    case False
    then have "2 < 1 / x" using pos by (simp add: field_simps)
    moreover have "1 / (x * 2) = (1 / x) / 2" by simp
    ultimately have "\<lceil>1 / (x * 2)\<rceil> < \<lceil>1 / x\<rceil>" by linarith
    moreover have "0 < \<lceil>1 / x\<rceil>" using inv by linarith
    ultimately have "nat \<lceil>1 / (x * 2)\<rceil> + 2 < nat \<lceil>1 / x\<rceil> + 2" by linarith
    then show ?thesis using False small by simp
  qed
qed

declare binexp.simps [simp del]

definition roundTiesToEven :: "real \<Rightarrow> int" where
  "roundTiesToEven y =
     (let f = \<lfloor>y\<rfloor>; r = y - of_int f
      in if r < 1 / 2 then f else if 1 / 2 < r then f + 1 else if even f then f else f + 1)"

definition rd :: "real \<Rightarrow> real" where
  "rd x = (if x = 0 then 0
           else (let u = pow2 (binexp \<bar>x\<bar> - 52) in of_int (roundTiesToEven (x / u)) * u))"

text \<open>
  \<^verbatim>\<open>Math.round\<close> rounds to the nearest integer, a tie towards plus infinity;
  \<^verbatim>\<open>Math.floor\<close> is the floor; \<^verbatim>\<open>a % b\<close> takes the sign of the dividend
  (the quotient is truncated towards zero).
\<close>

definition Math_round :: "real \<Rightarrow> int" where
  "Math_round x = \<lfloor>x + 1 / 2\<rfloor>"

definition Math_floor :: "real \<Rightarrow> int" where
  "Math_floor x = \<lfloor>x\<rfloor>"

definition trunc :: "real \<Rightarrow> int" where
  "trunc x = (if 0 \<le> x then \<lfloor>x\<rfloor> else \<lceil>x\<rceil>)"

definition js_rem :: "real \<Rightarrow> real \<Rightarrow> real" where
  "js_rem a b = a - b * of_int (trunc (a / b))"

text \<open>
  Strings are byte strings; \<^verbatim>\<open>toLowerCase\<close> and \<^verbatim>\<open>toUpperCase\<close> act on the
  ASCII letters and leave every other byte as it is. The handler compares the
  results with ASCII literals only, and no character outside ASCII has one of
  the letters a, d, f, m, s, w, x, z as its lower case; tag names are ASCII.
\<close>

definition lower_char :: "char \<Rightarrow> char" where
  "lower_char c =
     (let n = (of_char c :: nat) in if 65 \<le> n \<and> n \<le> 90 then char_of (n + 32) else c)"

definition upper_char :: "char \<Rightarrow> char" where
  "upper_char c =
     (let n = (of_char c :: nat) in if 97 \<le> n \<and> n \<le> 122 then char_of (n - 32) else c)"

definition toLowerCase :: "string \<Rightarrow> string" where
  "toLowerCase s = map lower_char s"

definition toUpperCase :: "string \<Rightarrow> string" where
  "toUpperCase s = map upper_char s"

text \<open>
  \<^verbatim>\<open>String(n)\<close> of an integer-valued number. Up to 21 digits are printed as
  they are. A longer number is printed with an exponent: its digits without
  the trailing zeros, a point after the first one when more than one is left,
  then \<^verbatim>\<open>e+\<close> and the number of digits that followed the first. A negative
  number has a minus sign in front. The digits are those of the exact value
  (a floating-point number has at most 17 significant ones).
\<close>

fun digits :: "nat \<Rightarrow> string" where
  "digits n = (if n < 10 then [char_of (48 + n)] else digits (n div 10) @ [char_of (48 + n mod 10)])"

declare digits.simps [simp del]

definition strip_zeros :: "string \<Rightarrow> string" where
  "strip_zeros ds = rev (dropWhile (\<lambda>c. c = CHR ''0'') (rev ds))"

definition String_nat :: "nat \<Rightarrow> string" where
  "String_nat n =
     (let ds = digits n in
      if length ds \<le> 21 then ds
      else (case strip_zeros ds of
              [] \<Rightarrow> ds
            | c # cs \<Rightarrow>
                (if cs = [] then [c] else c # CHR ''.'' # cs) @ ''e+'' @ digits (length ds - 1)))"

definition String_int :: "int \<Rightarrow> string" where
  "String_int i = (if i < 0 then CHR ''-'' # String_nat (nat (- i)) else String_nat (nat i))"

text \<open>\<^verbatim>\<open>s.padStart(2, '0')\<close>: zeros in front up to length 2, nothing cut.\<close>

definition padStart2 :: "string \<Rightarrow> string" where
  "padStart2 s = replicate (2 - length s) CHR ''0'' @ s"

text \<open>
  \<^verbatim>\<open>parseInt\<close> is only called on the one-character strings \<^verbatim>\<open>'0'\<close> to
  \<^verbatim>\<open>'9'\<close>; on a string of decimal digits it is the number they spell.
\<close>

definition parseInt :: "string \<Rightarrow> nat" where
  "parseInt s = foldl (\<lambda>acc c. 10 * acc + (of_char c - 48)) 0 s"

section \<open>The player, the keyboard event and the calls the handler makes\<close>

record options =
  hotkey :: bool
  live :: bool

record video =
  currentTime :: real
  duration :: jsnum
  playbackRate :: real
  muted :: bool
  videoWidth :: nat
  videoHeight :: nat

datatype scope = Browser | Web

text \<open>
  \<open>volume\<close> is what the getter \<^verbatim>\<open>player.volume()\<close> returns and
  \<open>isFullScreen\<close> what \<^verbatim>\<open>player.fullScreen.isFullScreen(scope)\<close> returns.
\<close>

record player =
  options :: options
  video :: video
  focus :: bool
  volume :: real
  isFullScreen :: "scope \<Rightarrow> bool"

record key_event =
  key :: string
  keyCode :: nat
  ctrlKey :: bool
  shiftKey :: bool
  location :: nat

text \<open>
  \<^verbatim>\<open>document.activeElement\<close> is an element or \<^verbatim>\<open>null\<close>; of the element the
  handler reads the tag name and \<^verbatim>\<open>getAttribute('contenteditable')\<close>, which is
  \<^verbatim>\<open>null\<close> when the attribute is absent.
\<close>

record element =
  tagName :: string
  contenteditable :: "string option"

text \<open>
  The player's methods are outside this file, so the handler's effect is the
  sequence of calls it makes on the player, on the event and on the page.
  \<open>Seek t u\<close> is \<^verbatim>\<open>player.seek(t)\<close> when \<open>u\<close> is \<open>None\<close> and
  \<^verbatim>\<open>player.seek(t, b)\<close> when it is \<open>Some b\<close>. \<open>SetMuted b\<close> is the
  assignment \<^verbatim>\<open>video.muted = b\<close>, \<open>DrawImage w h\<close> the frame drawn into a
  canvas of that size, and \<open>Download f\<close> the link with \<^verbatim>\<open>download = f\<close>
  that the callback of \<^verbatim>\<open>canvas.toBlob\<close> clicks. The download stands where
  \<^verbatim>\<open>toBlob\<close> is called: the callback runs once the image is encoded, and the
  notice after it in the source does not wait for that.
\<close>

datatype call =
    PreventDefault
  | Toggle
  | Seek jsnum "bool option"
  | SetAutoHide
  | Volume real
  | Speed real
  | Notice string
  | FsRequest scope
  | FsCancel scope
  | SetMuted bool
  | DrawImage nat nat
  | Download string

datatype error = TypeError

datatype handler = DoHotKeyHandler | CancelFullScreenHandler

section \<open>The class HotKey\<close>

definition constructor :: "player \<Rightarrow> handler list" where
  "constructor p =
     (if hotkey (options p) then [DoHotKeyHandler] else []) @ [CancelFullScreenHandler]"

definition takeScreenshot :: "player \<Rightarrow> call list" where
  "takeScreenshot p =
     (let v = video p;
          time = currentTime v;
          h = padStart2 (String_int (Math_floor (time / 3600)));
          m = padStart2 (String_int (Math_floor (js_rem time 3600 / 60)));
          s = padStart2 (String_int (Math_floor (js_rem time 60)));
          timestamp = h @ ''-'' @ m @ ''-'' @ s
      in [DrawImage (videoWidth v) (videoHeight v),
          Download (''screenshot_'' @ timestamp @ ''.png''),
          Notice (''Screenshot: '' @ timestamp)])"

definition changeSpeed :: "player \<Rightarrow> real \<Rightarrow> call list" where
  "changeSpeed p delta =
     (let newRate = rd (playbackRate (video p) + delta);
          newRate = max (25 / 100) (min 2 newRate);
          newRate = rd (of_int (Math_round (rd (newRate * 100))) / 100)
      in [Speed newRate])"

definition resetSpeed :: "call list" where
  "resetSpeed = [Speed 1]"

definition seekToPercent :: "player \<Rightarrow> nat \<Rightarrow> call list" where
  "seekToPercent p percent =
     (if truthy (duration (video p)) then
        (let time = js_mul (Fin (real percent / 100)) (duration (video p))
         in [Seek time (Some True), Notice (''Seek: '' @ String_int (int percent) @ ''%'')])
      else [])"

definition handleLetterKeys :: "player \<Rightarrow> string \<Rightarrow> call list" where
  "handleLetterKeys p k =
     (let lowerKey = toLowerCase k in
      if lowerKey = ''a'' then
        PreventDefault #
        (if live (options p) then []
         else (if 5 \<le> currentTime (video p)
               then [Seek (Fin (currentTime (video p) - 5)) None]
               else [Seek (Fin 0) None]) @ [SetAutoHide])
      else if lowerKey = ''d'' then
        PreventDefault #
        (if live (options p) then []
         else (if truthy (duration (video p))
                   \<and> js_lt (Fin (currentTime (video p) + 5)) (duration (video p))
               then [Seek (Fin (currentTime (video p) + 5)) None]
               else if truthy (duration (video p))
               then [Seek (js_sub (duration (video p)) (Fin 1)) None]
               else []) @ [SetAutoHide])
      else if lowerKey = ''f'' then
        PreventDefault #
        (if isFullScreen p Browser then [FsCancel Browser] else [FsRequest Browser])
      else if lowerKey = ''w'' then
        PreventDefault #
        (if isFullScreen p Web then [FsCancel Web] else [FsRequest Web])
      else if lowerKey = ''m'' then
        PreventDefault #
        (if muted (video p) then [SetMuted False, Notice ''Unmuted'']
         else [SetMuted True, Notice ''Muted''])
      else if lowerKey = ''+'' \<or> lowerKey = ''='' then
        PreventDefault # changeSpeed p (rd (5 / 100))
      else if lowerKey = ''-'' then
        PreventDefault # changeSpeed p (- rd (5 / 100))
      else if lowerKey = ''0'' \<or> lowerKey = ''1'' \<or> lowerKey = ''2'' \<or> lowerKey = ''3''
              \<or> lowerKey = ''4'' \<or> lowerKey = ''5'' \<or> lowerKey = ''6'' \<or> lowerKey = ''7''
              \<or> lowerKey = ''8'' \<or> lowerKey = ''9'' then
        PreventDefault #
        (if \<not> live (options p) then seekToPercent p (parseInt lowerKey * 10) else [])
      else [])"

text \<open>The \<^verbatim>\<open>switch (keyCode)\<close> of \<^verbatim>\<open>doHotKey\<close>.\<close>

definition keyCodeSwitch :: "player \<Rightarrow> key_event \<Rightarrow> call list" where
  "keyCodeSwitch p e =
     (if keyCode e = 32 then [PreventDefault, Toggle]
      else if keyCode e = 37 then
        PreventDefault #
        (if live (options p) then []
         else [Seek (Fin (currentTime (video p) - 5)) None, SetAutoHide])
      else if keyCode e = 39 then
        PreventDefault #
        (if live (options p) then []
         else [Seek (Fin (currentTime (video p) + 5)) None, SetAutoHide])
      else if keyCode e = 38 then [PreventDefault, Volume (volume p + 1 / 10)]
      else if keyCode e = 40 then [PreventDefault, Volume (volume p - 1 / 10)]
      else if keyCode e = 13 then
        (if location e = 3 then PreventDefault # resetSpeed else [])
      else handleLetterKeys p (key e))"

text \<open>
  \<^verbatim>\<open>doHotKey\<close>: reading \<^verbatim>\<open>tagName\<close> of a \<^verbatim>\<open>null\<close> active element throws
  a \<^verbatim>\<open>TypeError\<close>, before any call is made.
\<close>

definition doHotKey :: "element option \<Rightarrow> player \<Rightarrow> key_event \<Rightarrow> error + call list" where
  "doHotKey activeElement p e =
     (if focus p then
        (case activeElement of
           None \<Rightarrow> Inl TypeError
         | Some el \<Rightarrow>
             (let tag = toUpperCase (tagName el);
                  editable = contenteditable el
              in if tag = ''INPUT'' \<or> tag = ''TEXTAREA''
                    \<or> editable = Some '''' \<or> editable = Some ''true''
                 then Inr []
                 else if ctrlKey e \<and> toLowerCase (key e) = ''x''
                 then Inr (PreventDefault # changeSpeed p (rd (5 / 100)))
                 else if ctrlKey e \<and> toLowerCase (key e) = ''z''
                 then Inr (PreventDefault # changeSpeed p (- rd (5 / 100)))
                 else if ctrlKey e \<and> shiftKey e
                 then Inr (PreventDefault # resetSpeed)
                 else if shiftKey e \<and> toLowerCase (key e) = ''s''
                 then Inr (PreventDefault # takeScreenshot p)
                 else Inr (keyCodeSwitch p e)))
      else Inr [])"

definition cancelFullScreen :: "player \<Rightarrow> key_event \<Rightarrow> call list" where
  "cancelFullScreen p e =
     (if keyCode e = 27 then (if isFullScreen p Web then [FsCancel Web] else []) else [])"

definition destroy :: "player \<Rightarrow> handler list \<Rightarrow> handler list" where
  "destroy p hs =
     removeAll CancelFullScreenHandler
       (if hotkey (options p) then removeAll DoHotKeyHandler hs else hs)"

section \<open>Vocabulary of the specification\<close>

text \<open>The specification's \<open>clamp(x, lo, hi)\<close>.\<close>

definition clamp :: "real \<Rightarrow> real \<Rightarrow> real \<Rightarrow> real" where
  "clamp x lo hi = (if x < lo then lo else if hi < x then hi else x)"

text \<open>
  An eligible event: the player has the focus and the active element is
  neither a text field nor explicitly editable.
\<close>

definition eligible :: "element option \<Rightarrow> player \<Rightarrow> bool" where
  "eligible activeElement p =
     (focus p \<and>
      (case activeElement of
         None \<Rightarrow> False
       | Some el \<Rightarrow>
           \<not> (toUpperCase (tagName el) = ''INPUT'' \<or> toUpperCase (tagName el) = ''TEXTAREA''
              \<or> contenteditable el = Some '''' \<or> contenteditable el = Some ''true'')))"

text \<open>One of the modifier rules 1 to 4 of the dispatcher matches the event.\<close>

definition modifierCombo :: "key_event \<Rightarrow> bool" where
  "modifierCombo e =
     ((ctrlKey e \<and> toLowerCase (key e) = ''x'') \<or> (ctrlKey e \<and> toLowerCase (key e) = ''z'')
      \<or> (ctrlKey e \<and> shiftKey e) \<or> (shiftKey e \<and> toLowerCase (key e) = ''s''))"

text \<open>The calls a run of the handler has made; none when it threw at once.\<close>

fun calls :: "error + call list \<Rightarrow> call list" where
  "calls (Inl err) = []"
| "calls (Inr cs) = cs"

fun is_seek :: "call \<Rightarrow> bool" where
  "is_seek (Seek t u) = True"
| "is_seek c = False"

fun is_fullscreen_call :: "call \<Rightarrow> bool" where
  "is_fullscreen_call (FsRequest sc) = True"
| "is_fullscreen_call (FsCancel sc) = True"
| "is_fullscreen_call c = False"

text \<open>
  The mathematical remainder of a real by a positive modulus, and the
  timestamp of the specification: hours, minutes and seconds of the playback
  time, each floored and padded to two digits.
\<close>

definition rmod :: "real \<Rightarrow> real \<Rightarrow> real" where
  "rmod t m = t - m * of_int \<lfloor>t / m\<rfloor>"

definition HH :: "real \<Rightarrow> nat" where
  "HH t = nat \<lfloor>t / 3600\<rfloor>"

definition MM :: "real \<Rightarrow> nat" where
  "MM t = nat \<lfloor>rmod t 3600 / 60\<rfloor>"

definition SS :: "real \<Rightarrow> nat" where
  "SS t = nat \<lfloor>rmod t 60\<rfloor>"

definition timestamp :: "real \<Rightarrow> string" where
  "timestamp t =
     padStart2 (String_nat (HH t)) @ ''-'' @ padStart2 (String_nat (MM t)) @ ''-''
       @ padStart2 (String_nat (SS t))"

section \<open>Example inputs\<close>

definition body :: element where
  "body = \<lparr>tagName = ''BODY'', contenteditable = None\<rparr>"

definition input_field :: element where
  "input_field = \<lparr>tagName = ''INPUT'', contenteditable = None\<rparr>"

text \<open>
  A focused player that is in no fullscreen, with the given live option,
  playback time, duration and playback rate.
\<close>

definition example_player :: "bool \<Rightarrow> real \<Rightarrow> jsnum \<Rightarrow> real \<Rightarrow> player" where
  "example_player lv t dur rate =
     \<lparr>options = \<lparr>hotkey = True, live = lv\<rparr>,
      video = \<lparr>currentTime = t, duration = dur, playbackRate = rate, muted = False,
               videoWidth = 640, videoHeight = 360\<rparr>,
      focus = True, volume = 1 / 2, isFullScreen = (\<lambda>sc. False)\<rparr>"

definition keydown :: "string \<Rightarrow> nat \<Rightarrow> bool \<Rightarrow> bool \<Rightarrow> key_event" where
  "keydown k code ctrl shift =
     \<lparr>key = k, keyCode = code, ctrlKey = ctrl, shiftKey = shift, location = 0\<rparr>"

section \<open>Printed numbers\<close>

lemma length_digits_small: "n < 10 \<Longrightarrow> length (digits n) = 1"
  by (simp add: digits.simps)

lemma length_digits_two: "10 \<le> n \<Longrightarrow> n < 100 \<Longrightarrow> length (digits n) = 2"
  by (subst digits.simps) (simp add: length_digits_small)

lemma length_padStart2: "n < 100 \<Longrightarrow> length (padStart2 (digits n)) = 2"
  by (cases "n < 10") (simp_all add: padStart2_def length_digits_small length_digits_two)

lemma length_digits_le: "n < 10 ^ Suc k \<Longrightarrow> length (digits n) \<le> Suc k"
proof (induction k arbitrary: n)
  case 0
  then show ?case by (simp add: length_digits_small)
next
  case (Suc k)
  show ?case
  proof (cases "n < 10")
    case True
    then show ?thesis by (simp add: length_digits_small)
  next
    case False
    from Suc.prems have "n div 10 < 10 ^ Suc k" by (simp add: div_less_iff_less_mult mult.commute)
    then have "length (digits (n div 10)) \<le> Suc k" by (rule Suc.IH)
    with False show ?thesis by (subst digits.simps) simp
  qed
qed

lemma String_nat_plain: "n < 10 ^ 21 \<Longrightarrow> String_nat n = digits n"
  using length_digits_le [of n 20] by (simp add: String_nat_def)

lemma String_nat_two_digits: "n < 100 \<Longrightarrow> String_nat n = digits n"
  by (rule String_nat_plain) simp

section \<open>Playback speed\<close>



















lemmas rd_eval = rd_def pow2_def binexp.simps roundTiesToEven_def Let_def

lemma max_min_clamp: "max (1 / 4) (min 2 x) = clamp x (1 / 4) 2"
  by (simp add: clamp_def max_def min_def)







lemma changeSpeed_eq:
  "changeSpeed p d =
     [Speed (rd (of_int (Math_round (rd (clamp (rd (playbackRate (video p) + d)) (1 / 4) 2 * 100)))
                 / 100))]"
  by (simp add: changeSpeed_def Let_def max_min_clamp)


lemma changeSpeed_steps:
  assumes "rd (playbackRate (video p) + d) = s" "clamp s (1 / 4) 2 = c"
    and "rd (c * 100) = y" "Math_round y = k"
  shows "changeSpeed p d = [Speed (rd (of_int k / 100))]"
  using assms by (simp add: changeSpeed_eq)

lemma changeSpeed_up_example:
  "changeSpeed (example_player False 3 (Fin 100) (3 / 2)) (rd (5 / 100)) = [Speed (rd (155 / 100))]"
proof -
  let ?p = "example_player False 3 (Fin 100) (3 / 2)"
  have a: "rd (playbackRate (video ?p) + rd (5 / 100)) = rd (155 / 100)"
    by (simp add: example_player_def rd_eval)
  have b: "clamp (rd (155 / 100)) (1 / 4) 2 = rd (155 / 100)" by (simp add: clamp_def rd_eval)
  have c: "rd (rd (155 / 100) * 100) = 155" by (simp add: rd_eval)
  have d: "Math_round 155 = 155" by (simp add: Math_round_def)
  from changeSpeed_steps [OF a b c d] show ?thesis by simp
qed

lemma changeSpeed_down_example:
  "changeSpeed (example_player False 3 (Fin 100) (3 / 2)) (- rd (5 / 100)) = [Speed (rd (145 / 100))]"
proof -
  let ?p = "example_player False 3 (Fin 100) (3 / 2)"
  have a: "rd (playbackRate (video ?p) + - rd (5 / 100)) = rd (145 / 100)"
    by (simp add: example_player_def rd_eval)
  have b: "clamp (rd (145 / 100)) (1 / 4) 2 = rd (145 / 100)" by (simp add: clamp_def rd_eval)
  have c: "rd (rd (145 / 100) * 100) = 145" by (simp add: rd_eval)
  have d: "Math_round 145 = 145" by (simp add: Math_round_def)
  from changeSpeed_steps [OF a b c d] show ?thesis by simp
qed




section \<open>The guard and the order of the rules\<close>

lemma doHotKey_no_focus: "\<not> focus p \<Longrightarrow> doHotKey activeElement p e = Inr []"
  by (simp add: doHotKey_def)

lemma doHotKey_typing:
  assumes "toUpperCase (tagName el) = ''INPUT'' \<or> toUpperCase (tagName el) = ''TEXTAREA''
           \<or> contenteditable el = Some '''' \<or> contenteditable el = Some ''true''"
  shows "doHotKey (Some el) p e = Inr []"
  using assms by (auto simp add: doHotKey_def Let_def)

lemma doHotKey_eligible:
  assumes "eligible activeElement p"
  shows "doHotKey activeElement p e =
           Inr (if ctrlKey e \<and> toLowerCase (key e) = ''x'' then PreventDefault # changeSpeed p (rd (5 / 100))
                else if ctrlKey e \<and> toLowerCase (key e) = ''z'' then PreventDefault # changeSpeed p (- rd (5 / 100))
                else if ctrlKey e \<and> shiftKey e then PreventDefault # resetSpeed
                else if shiftKey e \<and> toLowerCase (key e) = ''s'' then PreventDefault # takeScreenshot p
                else keyCodeSwitch p e)"
proof (cases activeElement)
  case None
  with assms show ?thesis by (simp add: eligible_def)
next
  case (Some el)
  with assms show ?thesis by (simp add: eligible_def doHotKey_def Let_def)
qed

lemma doHotKey_unmodified:
  assumes "eligible activeElement p" "\<not> modifierCombo e"
  shows "doHotKey activeElement p e = Inr (keyCodeSwitch p e)"
  using assms(2) by (auto simp add: doHotKey_eligible [OF assms(1)] modifierCombo_def)

lemma eligible_body: "eligible (Some body) (example_player lv t dur rate)"
  by (simp add: eligible_def body_def example_player_def toUpperCase_def upper_char_def)

lemmas key_eval = toLowerCase_def lower_char_def char_of_def bit_0 keydown_def

text \<open>
  Claim C1, as amended. For every eligible event with Ctrl held: a key label
  that is 'x' up to case fires \<open>changeSpeed(+0.05)\<close>, whether Shift is held or
  not; a key label that is 'z' up to case fires \<open>changeSpeed(-0.05)\<close>; and with
  Shift held too and any other key label the rate is reset to exactly 1. The
  rules are tried in the order 1, 2, 3, so Ctrl+Shift+X is a speed increase.
\<close>

theorem modifier_rules_in_order:
  assumes "eligible activeElement p" "ctrlKey e"
  shows "(toLowerCase (key e) = ''x'' \<longrightarrow>
            doHotKey activeElement p e = Inr (PreventDefault # changeSpeed p (rd (5 / 100))))
       \<and> (toLowerCase (key e) = ''z'' \<longrightarrow>
            doHotKey activeElement p e = Inr (PreventDefault # changeSpeed p (- rd (5 / 100))))
       \<and> (shiftKey e \<and> toLowerCase (key e) \<noteq> ''x'' \<and> toLowerCase (key e) \<noteq> ''z'' \<longrightarrow>
            doHotKey activeElement p e = Inr [PreventDefault, Speed 1])"
  using assms(2) by (simp add: doHotKey_eligible [OF assms(1)] resetSpeed_def)

theorem modifier_rules_in_order_witness:
  "doHotKey (Some body) (example_player False 3 (Fin 100) (3 / 2)) (keydown ''X'' 88 True True)
     = Inr [PreventDefault, Speed (rd (155 / 100))]
   \<and> doHotKey (Some body) (example_player False 3 (Fin 100) (3 / 2)) (keydown ''z'' 90 True False)
     = Inr [PreventDefault, Speed (rd (145 / 100))]
   \<and> doHotKey (Some body) (example_player False 3 (Fin 100) (3 / 2)) (keydown ''Shift'' 16 True True)
     = Inr [PreventDefault, Speed 1]"
proof -
  let ?p = "example_player False 3 (Fin 100) (3 / 2)"
  have up: "changeSpeed ?p (rd (5 / 100)) = [Speed (rd (155 / 100))]"
    by (rule changeSpeed_up_example)
  have down: "changeSpeed ?p (- rd (5 / 100)) = [Speed (rd (145 / 100))]"
    by (rule changeSpeed_down_example)
  have kx: "ctrlKey (keydown ''X'' 88 True True)" "toLowerCase (key (keydown ''X'' 88 True True)) = ''x''"
    by (simp_all add: key_eval)
  have kz: "ctrlKey (keydown ''z'' 90 True False)" "toLowerCase (key (keydown ''z'' 90 True False)) = ''z''"
    by (simp_all add: key_eval)
  have ks: "ctrlKey (keydown ''Shift'' 16 True True)" "shiftKey (keydown ''Shift'' 16 True True)"
    "toLowerCase (key (keydown ''Shift'' 16 True True)) \<noteq> ''x''"
    "toLowerCase (key (keydown ''Shift'' 16 True True)) \<noteq> ''z''"
    by (simp_all add: key_eval)
  from modifier_rules_in_order [OF eligible_body kx(1)] kx(2) up
  have 1: "doHotKey (Some body) ?p (keydown ''X'' 88 True True) = Inr [PreventDefault, Speed (rd (155 / 100))]"
    by simp
  from modifier_rules_in_order [OF eligible_body kz(1)] kz(2) down
  have 2: "doHotKey (Some body) ?p (keydown ''z'' 90 True False) = Inr [PreventDefault, Speed (rd (145 / 100))]"
    by simp
  from modifier_rules_in_order [OF eligible_body ks(1)] ks(2,3,4)
  have 3: "doHotKey (Some body) ?p (keydown ''Shift'' 16 True True) = Inr [PreventDefault, Speed 1]"
    by blast
  from 1 2 3 show ?thesis by blast
qed

text \<open>
  Claim C1 as stated fails: Ctrl+Shift+X on an eligible player at rate 1.5
  sets the rate to 1.55, it does not reset it to 1.
\<close>

theorem ctrl_shift_x_counterexample:
  "eligible (Some body) (example_player False 3 (Fin 100) (3 / 2))
   \<and> ctrlKey (keydown ''X'' 88 True True) \<and> shiftKey (keydown ''X'' 88 True True)
   \<and> toLowerCase (key (keydown ''X'' 88 True True)) = ''x''
   \<and> doHotKey (Some body) (example_player False 3 (Fin 100) (3 / 2)) (keydown ''X'' 88 True True)
       = Inr [PreventDefault, Speed (rd (155 / 100))]
   \<and> doHotKey (Some body) (example_player False 3 (Fin 100) (3 / 2)) (keydown ''X'' 88 True True)
       \<noteq> Inr (PreventDefault # resetSpeed)
   \<and> Speed 1 \<notin> set (calls (doHotKey (Some body) (example_player False 3 (Fin 100) (3 / 2))
                              (keydown ''X'' 88 True True)))"
proof -
  let ?p = "example_player False 3 (Fin 100) (3 / 2)"
  let ?e = "keydown ''X'' 88 True True"
  have k: "ctrlKey ?e" "shiftKey ?e" "toLowerCase (key ?e) = ''x''"
    by (simp_all add: key_eval)
  have up: "changeSpeed ?p (rd (5 / 100)) = [Speed (rd (155 / 100))]"
    by (rule changeSpeed_up_example)
  have run: "doHotKey (Some body) ?p ?e = Inr [PreventDefault, Speed (rd (155 / 100))]"
    using k up by (simp add: doHotKey_eligible [OF eligible_body])
  have other: "rd (155 / 100) \<noteq> 1" by (simp add: rd_eval)
  show ?thesis using eligible_body k run other by (simp add: resetSpeed_def)
qed

section \<open>Live streams\<close>

lemma changeSpeed_no_seek: "c \<in> set (changeSpeed p d) \<Longrightarrow> \<not> is_seek c"
  by (auto simp add: changeSpeed_def Let_def)

lemma takeScreenshot_no_seek: "c \<in> set (takeScreenshot p) \<Longrightarrow> \<not> is_seek c"
  by (auto simp add: takeScreenshot_def Let_def)

lemma handleLetterKeys_live_no_seek:
  assumes "live (options p)" "c \<in> set (handleLetterKeys p k)"
  shows "\<not> is_seek c"
  using assms changeSpeed_no_seek [of c p]
  by (auto simp add: handleLetterKeys_def Let_def split: if_splits)

lemma keyCodeSwitch_live_no_seek:
  assumes "live (options p)" "c \<in> set (keyCodeSwitch p e)"
  shows "\<not> is_seek c"
  using assms handleLetterKeys_live_no_seek [of p c "key e"]
  by (auto simp add: keyCodeSwitch_def resetSpeed_def split: if_splits)

lemma cancelFullScreen_no_seek: "c \<in> set (cancelFullScreen p e) \<Longrightarrow> \<not> is_seek c"
  by (auto simp add: cancelFullScreen_def split: if_splits)

lemma doHotKey_cases:
  "doHotKey activeElement p e = Inl TypeError
   \<or> doHotKey activeElement p e = Inr []
   \<or> doHotKey activeElement p e = Inr (PreventDefault # changeSpeed p (rd (5 / 100)))
   \<or> doHotKey activeElement p e = Inr (PreventDefault # changeSpeed p (- rd (5 / 100)))
   \<or> doHotKey activeElement p e = Inr (PreventDefault # resetSpeed)
   \<or> doHotKey activeElement p e = Inr (PreventDefault # takeScreenshot p)
   \<or> doHotKey activeElement p e = Inr (keyCodeSwitch p e)"
  by (simp add: doHotKey_def Let_def split: option.splits)

text \<open>
  Claim C2. While the player's live option is true, no keyboard event makes
  either listener call \<open>seek\<close>, whatever the key, the key code, the modifiers,
  the focus and the active element are.
\<close>

theorem live_never_seeks:
  assumes "live (options p)"
  shows "(\<forall>c \<in> set (calls (doHotKey activeElement p e)). \<not> is_seek c)
       \<and> (\<forall>c \<in> set (cancelFullScreen p e). \<not> is_seek c)"
proof
  show "\<forall>c \<in> set (calls (doHotKey activeElement p e)). \<not> is_seek c"
  proof
    fix c
    assume c: "c \<in> set (calls (doHotKey activeElement p e))"
    from doHotKey_cases [of activeElement p e] c show "\<not> is_seek c"
      using changeSpeed_no_seek [of c p] takeScreenshot_no_seek [of c p]
        keyCodeSwitch_live_no_seek [OF assms, of c e]
      by (auto simp add: resetSpeed_def)
  qed
next
  show "\<forall>c \<in> set (cancelFullScreen p e). \<not> is_seek c"
    using cancelFullScreen_no_seek by blast
qed

theorem live_never_seeks_witness:
  "live (options (example_player True 30 PosInf 1))
   \<and> doHotKey (Some body) (example_player True 30 PosInf 1) (keydown ''ArrowLeft'' 37 False False)
       = Inr [PreventDefault]
   \<and> doHotKey (Some body) (example_player True 30 PosInf 1) (keydown ''7'' 55 False False)
       = Inr [PreventDefault]
   \<and> Seek (Fin 35) None \<notin> set (calls (doHotKey (Some body) (example_player True 30 PosInf 1)
                                        (keydown ''d'' 68 False False)))"
proof -
  let ?p = "example_player True 30 PosInf 1"
  have lv: "live (options ?p)" by (simp add: example_player_def)
  have left: "doHotKey (Some body) ?p (keydown ''ArrowLeft'' 37 False False) = Inr [PreventDefault]"
    by (simp add: doHotKey_eligible [OF eligible_body] keyCodeSwitch_def keydown_def lv)
  have seven: "doHotKey (Some body) ?p (keydown ''7'' 55 False False) = Inr [PreventDefault]"
    by (simp add: doHotKey_eligible [OF eligible_body] keyCodeSwitch_def handleLetterKeys_def
        key_eval lv)
  from live_never_seeks [OF lv, of "Some body" "keydown ''d'' 68 False False"]
  have "Seek (Fin 35) None \<notin> set (calls (doHotKey (Some body) ?p (keydown ''d'' 68 False False)))"
    by auto
  with lv left seven show ?thesis by blast
qed

section \<open>The two listeners\<close>

lemma cancelFullScreen_escape:
  "keyCode e = 27 \<Longrightarrow> cancelFullScreen p e = (if isFullScreen p Web then [FsCancel Web] else [])"
  by (simp add: cancelFullScreen_def)

lemma cancelFullScreen_registered: "CancelFullScreenHandler \<in> set (constructor p)"
  by (simp add: constructor_def)

lemma cancelFullScreen_calls:
  "c \<in> set (cancelFullScreen p e) \<Longrightarrow> c = FsCancel Web \<and> keyCode e = 27 \<and> isFullScreen p Web"
  by (auto simp add: cancelFullScreen_def split: if_splits)

lemma changeSpeed_no_fullscreen: "c \<in> set (changeSpeed p d) \<Longrightarrow> \<not> is_fullscreen_call c"
  by (auto simp add: changeSpeed_def Let_def)

lemma takeScreenshot_no_fullscreen: "c \<in> set (takeScreenshot p) \<Longrightarrow> \<not> is_fullscreen_call c"
  by (auto simp add: takeScreenshot_def Let_def)

lemma handleLetterKeys_escape: "toLowerCase k = ''escape'' \<Longrightarrow> handleLetterKeys p k = []"
  by (simp add: handleLetterKeys_def Let_def)

lemma keyCodeSwitch_escape_no_fullscreen:
  assumes "toLowerCase (key e) = ''escape''" "c \<in> set (keyCodeSwitch p e)"
  shows "\<not> is_fullscreen_call c"
  using assms(2)
  by (auto simp add: keyCodeSwitch_def resetSpeed_def handleLetterKeys_escape [OF assms(1)]
      split: if_splits)

lemma doHotKey_escape_no_fullscreen:
  assumes "toLowerCase (key e) = ''escape''" "c \<in> set (calls (doHotKey activeElement p e))"
  shows "\<not> is_fullscreen_call c"
proof -
  have speed: "\<not> is_fullscreen_call c" if "c \<in> set (changeSpeed p d)" for d
    using that by (rule changeSpeed_no_fullscreen)
  from doHotKey_cases [of activeElement p e] assms(2) show ?thesis
    using speed takeScreenshot_no_fullscreen [of c p]
      keyCodeSwitch_escape_no_fullscreen [OF assms(1), of c p]
    by (auto simp add: resetSpeed_def)
qed

text \<open>
  Claim C6. The constructor registers the Escape listener whatever the hotkey
  option is, and the listener reads neither the focus nor the active element.
  On key code 27 it cancels the web fullscreen exactly when the player is in
  it; whatever the event, it never requests a fullscreen and never cancels the
  browser one, so Escape in browser fullscreen only makes it call nothing.
  The hotkey listener makes no fullscreen call on the Escape key either.
\<close>

theorem escape_exits_web_fullscreen_only:
  "CancelFullScreenHandler \<in> set (constructor p)
   \<and> (keyCode e = 27 \<and> isFullScreen p Web \<longrightarrow> cancelFullScreen p e = [FsCancel Web])
   \<and> (keyCode e = 27 \<and> \<not> isFullScreen p Web \<longrightarrow> cancelFullScreen p e = [])
   \<and> (\<forall>c \<in> set (cancelFullScreen p e'). c = FsCancel Web)
   \<and> FsCancel Browser \<notin> set (cancelFullScreen p e')
   \<and> (\<forall>sc. FsRequest sc \<notin> set (cancelFullScreen p e'))
   \<and> (toLowerCase (key e) = ''escape'' \<longrightarrow>
         (\<forall>c \<in> set (calls (doHotKey activeElement p e)). \<not> is_fullscreen_call c))"
proof -
  have only: "\<forall>c \<in> set (cancelFullScreen p e'). c = FsCancel Web"
    using cancelFullScreen_calls by blast
  then have "FsCancel Browser \<notin> set (cancelFullScreen p e')"
    and "\<forall>sc. FsRequest sc \<notin> set (cancelFullScreen p e')"
    by auto
  moreover have "toLowerCase (key e) = ''escape'' \<longrightarrow>
         (\<forall>c \<in> set (calls (doHotKey activeElement p e)). \<not> is_fullscreen_call c)"
    using doHotKey_escape_no_fullscreen by blast
  ultimately show ?thesis using only
    by (simp add: cancelFullScreen_registered cancelFullScreen_escape)
qed

theorem escape_exits_web_fullscreen_only_witness:
  "cancelFullScreen ((example_player False 3 (Fin 100) 1)
       \<lparr>focus := False, isFullScreen := (\<lambda>sc. sc = Web)\<rparr>) (keydown ''Escape'' 27 False False)
     = [FsCancel Web]
   \<and> cancelFullScreen ((example_player False 3 (Fin 100) 1)
       \<lparr>isFullScreen := (\<lambda>sc. sc = Browser)\<rparr>) (keydown ''Escape'' 27 False False)
     = []
   \<and> CancelFullScreenHandler \<in> set (constructor ((example_player False 3 (Fin 100) 1)
       \<lparr>options := \<lparr>hotkey = False, live = False\<rparr>\<rparr>))
   \<and> FsCancel Browser \<notin> set (calls (doHotKey (Some body) ((example_player False 3 (Fin 100) 1)
       \<lparr>isFullScreen := (\<lambda>sc. sc = Browser)\<rparr>) (keydown ''Escape'' 27 False False)))"
proof -
  let ?e = "keydown ''Escape'' 27 False False"
  let ?web = "(example_player False 3 (Fin 100) 1)\<lparr>focus := False, isFullScreen := (\<lambda>sc. sc = Web)\<rparr>"
  let ?browser = "(example_player False 3 (Fin 100) 1)\<lparr>isFullScreen := (\<lambda>sc. sc = Browser)\<rparr>"
  let ?off = "(example_player False 3 (Fin 100) 1)\<lparr>options := \<lparr>hotkey = False, live = False\<rparr>\<rparr>"
  have code: "keyCode ?e = 27" by (simp add: keydown_def)
  have label: "toLowerCase (key ?e) = ''escape''" by (simp add: key_eval)
  have w: "isFullScreen ?web Web" by simp
  have b: "\<not> isFullScreen ?browser Web" by simp
  from escape_exits_web_fullscreen_only [of ?web ?e] code w
  have 1: "cancelFullScreen ?web ?e = [FsCancel Web]" by blast
  from escape_exits_web_fullscreen_only [of ?browser ?e] code b
  have 2: "cancelFullScreen ?browser ?e = []" by blast
  from escape_exits_web_fullscreen_only [of ?off]
  have 3: "CancelFullScreenHandler \<in> set (constructor ?off)" by blast
  from escape_exits_web_fullscreen_only [of ?browser ?e _ "Some body"] label
  have "\<forall>c \<in> set (calls (doHotKey (Some body) ?browser ?e)). \<not> is_fullscreen_call c" by blast
  then have 4: "FsCancel Browser \<notin> set (calls (doHotKey (Some body) ?browser ?e))" by auto
  from 1 2 3 4 show ?thesis by blast
qed

text \<open>
  Claim C7. When the player does not have the focus, or the active element's
  tag is INPUT or TEXTAREA, or its contenteditable attribute is the empty
  string or "true", \<open>doHotKey\<close> returns without a single call: no action, no
  change of the player and no \<open>preventDefault\<close>. The Escape listener is
  registered and does what it does for any other state.
\<close>

theorem guard_blocks_every_rule:
  assumes "\<not> focus p
           \<or> (case activeElement of
                 None \<Rightarrow> False
               | Some el \<Rightarrow>
                   toUpperCase (tagName el) = ''INPUT'' \<or> toUpperCase (tagName el) = ''TEXTAREA''
                   \<or> contenteditable el = Some '''' \<or> contenteditable el = Some ''true'')"
  shows "doHotKey activeElement p e = Inr []
       \<and> CancelFullScreenHandler \<in> set (constructor p)
       \<and> cancelFullScreen p e
           = (if keyCode e = 27 \<and> isFullScreen p Web then [FsCancel Web] else [])"
proof -
  have "doHotKey activeElement p e = Inr []"
  proof (cases "focus p")
    case False
    then show ?thesis by (rule doHotKey_no_focus)
  next
    case True
    with assms obtain el where "activeElement = Some el"
      and "toUpperCase (tagName el) = ''INPUT'' \<or> toUpperCase (tagName el) = ''TEXTAREA''
           \<or> contenteditable el = Some '''' \<or> contenteditable el = Some ''true''"
      by (cases activeElement) auto
    then show ?thesis using doHotKey_typing by blast
  qed
  then show ?thesis
    by (simp add: cancelFullScreen_registered cancelFullScreen_def)
qed

theorem guard_blocks_every_rule_witness:
  "doHotKey (Some input_field) ((example_player False 3 (Fin 100) 1)
       \<lparr>isFullScreen := (\<lambda>sc. sc = Web)\<rparr>) (keydown ''Escape'' 27 False False) = Inr []
   \<and> cancelFullScreen ((example_player False 3 (Fin 100) 1)
       \<lparr>isFullScreen := (\<lambda>sc. sc = Web)\<rparr>) (keydown ''Escape'' 27 False False) = [FsCancel Web]
   \<and> doHotKey (Some \<lparr>tagName = ''div'', contenteditable = Some ''true''\<rparr>)
       (example_player False 3 (Fin 100) 1) (keydown ''m'' 77 False False) = Inr []
   \<and> doHotKey None ((example_player False 3 (Fin 100) 1)\<lparr>focus := False\<rparr>)
       (keydown '' '' 32 False False) = Inr []"
proof -
  let ?web = "(example_player False 3 (Fin 100) 1)\<lparr>isFullScreen := (\<lambda>sc. sc = Web)\<rparr>"
  let ?esc = "keydown ''Escape'' 27 False False"
  have tag: "toUpperCase (tagName input_field) = ''INPUT''"
    by (simp add: input_field_def toUpperCase_def upper_char_def)
  have code: "keyCode ?esc = 27 \<and> isFullScreen ?web Web" by (simp add: keydown_def)
  from guard_blocks_every_rule [of ?web "Some input_field" ?esc] tag code
  have 1: "doHotKey (Some input_field) ?web ?esc = Inr [] \<and> cancelFullScreen ?web ?esc = [FsCancel Web]"
    by simp
  from guard_blocks_every_rule [of "example_player False 3 (Fin 100) 1"
      "Some \<lparr>tagName = ''div'', contenteditable = Some ''true''\<rparr>" "keydown ''m'' 77 False False"]
  have 2: "doHotKey (Some \<lparr>tagName = ''div'', contenteditable = Some ''true''\<rparr>)
       (example_player False 3 (Fin 100) 1) (keydown ''m'' 77 False False) = Inr []"
    by simp
  from guard_blocks_every_rule [of "(example_player False 3 (Fin 100) 1)\<lparr>focus := False\<rparr>"
      None "keydown '' '' 32 False False"]
  have 3: "doHotKey None ((example_player False 3 (Fin 100) 1)\<lparr>focus := False\<rparr>)
       (keydown '' '' 32 False False) = Inr []"
    by simp
  from 1 2 3 show ?thesis by blast
qed

section \<open>Key-code rules: volume and Enter\<close>

text \<open>
  Claim C9, as amended. For every eligible up-arrow or down-arrow event that
  none of the modifier rules 1 to 4 matches, and every current volume \<open>v\<close>,
  the handler calls \<open>volume(v + 0.1)\<close> (up) or \<open>volume(v - 0.1)\<close> (down) and
  nothing else but \<open>preventDefault\<close>: the sum is passed on as it is, not
  clamped to \<open>[0, 1]\<close>.
\<close>

theorem arrows_pass_volume_unclamped:
  assumes "eligible activeElement p" "\<not> modifierCombo e"
  shows "(keyCode e = 38 \<longrightarrow>
            doHotKey activeElement p e = Inr [PreventDefault, Volume (volume p + 1 / 10)])
       \<and> (keyCode e = 40 \<longrightarrow>
            doHotKey activeElement p e = Inr [PreventDefault, Volume (volume p - 1 / 10)])"
  by (simp add: doHotKey_unmodified [OF assms] keyCodeSwitch_def)

lemma eligible_body_update:
  "eligible (Some body) ((example_player lv t dur rate)\<lparr>volume := v\<rparr>)"
  by (simp add: eligible_def body_def example_player_def toUpperCase_def upper_char_def)

theorem arrows_pass_volume_unclamped_witness:
  "doHotKey (Some body) ((example_player False 3 (Fin 100) 1)\<lparr>volume := 1\<rparr>)
       (keydown ''ArrowUp'' 38 False False) = Inr [PreventDefault, Volume (11 / 10)]
   \<and> doHotKey (Some body) ((example_player False 3 (Fin 100) 1)\<lparr>volume := 0\<rparr>)
       (keydown ''ArrowDown'' 40 True False) = Inr [PreventDefault, Volume (- (1 / 10))]"
proof -
  have up: "\<not> modifierCombo (keydown ''ArrowUp'' 38 False False)"
    by (simp add: modifierCombo_def keydown_def)
  have down: "\<not> modifierCombo (keydown ''ArrowDown'' 40 True False)"
    by (simp add: modifierCombo_def key_eval)
  from arrows_pass_volume_unclamped [OF eligible_body_update [where lv = False and t = 3 and dur = "Fin 100" and rate = 1 and v = 1] up]
  have 1: "doHotKey (Some body) ((example_player False 3 (Fin 100) 1)\<lparr>volume := 1\<rparr>)
       (keydown ''ArrowUp'' 38 False False) = Inr [PreventDefault, Volume (11 / 10)]"
    by (simp add: keydown_def)
  from arrows_pass_volume_unclamped [OF eligible_body_update [where lv = False and t = 3 and dur = "Fin 100" and rate = 1 and v = 0] down]
  have 2: "doHotKey (Some body) ((example_player False 3 (Fin 100) 1)\<lparr>volume := 0\<rparr>)
       (keydown ''ArrowDown'' 40 True False) = Inr [PreventDefault, Volume (- (1 / 10))]"
    by (simp add: keydown_def)
  from 1 2 show ?thesis by blast
qed

text \<open>
  Claim C9 as stated fails: Ctrl+Shift+ArrowUp is an eligible up-arrow event,
  and rule 3 resets the speed instead of changing the volume.
\<close>

theorem ctrl_shift_arrow_up_counterexample:
  "eligible (Some body) (example_player False 3 (Fin 100) 1)
   \<and> keyCode (keydown ''ArrowUp'' 38 True True) = 38
   \<and> doHotKey (Some body) (example_player False 3 (Fin 100) 1) (keydown ''ArrowUp'' 38 True True)
       = Inr [PreventDefault, Speed 1]
   \<and> Volume (volume (example_player False 3 (Fin 100) 1) + 1 / 10)
       \<notin> set (calls (doHotKey (Some body) (example_player False 3 (Fin 100) 1)
                          (keydown ''ArrowUp'' 38 True True)))"
proof -
  have run: "doHotKey (Some body) (example_player False 3 (Fin 100) 1) (keydown ''ArrowUp'' 38 True True)
       = Inr [PreventDefault, Speed 1]"
    by (simp add: doHotKey_eligible [OF eligible_body] key_eval resetSpeed_def)
  show ?thesis using eligible_body run by (simp add: keydown_def)
qed

text \<open>
  Claim C10, as amended. For every eligible Enter keydown (key code 13) whose
  location is not the numeric keypad and that none of the modifier rules 1 to
  4 matches, the handler makes no call: no action, no \<open>preventDefault\<close>, and
  the key-code switch ends there whatever the key label is, so the letter-key
  fallback is not run.
\<close>

theorem main_enter_is_no_op:
  assumes "eligible activeElement p" "\<not> modifierCombo e" "keyCode e = 13" "location e \<noteq> 3"
  shows "doHotKey activeElement p e = Inr [] \<and> keyCodeSwitch p e = []"
  using assms(3,4) by (simp add: doHotKey_unmodified [OF assms(1,2)] keyCodeSwitch_def)

theorem main_enter_is_no_op_witness:
  "doHotKey (Some body) (example_player False 3 (Fin 100) 1) (keydown ''Enter'' 13 False False) = Inr []
   \<and> doHotKey (Some body) (example_player False 3 (Fin 100) 1) (keydown ''m'' 13 False True) = Inr []
   \<and> handleLetterKeys (example_player False 3 (Fin 100) 1) ''m''
       = [PreventDefault, SetMuted True, Notice ''Muted'']"
proof -
  have enter: "\<not> modifierCombo (keydown ''Enter'' 13 False False)"
    "keyCode (keydown ''Enter'' 13 False False) = 13" "location (keydown ''Enter'' 13 False False) \<noteq> 3"
    by (simp_all add: modifierCombo_def keydown_def)
  have m: "\<not> modifierCombo (keydown ''m'' 13 False True)"
    "keyCode (keydown ''m'' 13 False True) = 13" "location (keydown ''m'' 13 False True) \<noteq> 3"
    by (simp_all add: modifierCombo_def key_eval)
  have letter: "handleLetterKeys (example_player False 3 (Fin 100) 1) ''m''
       = [PreventDefault, SetMuted True, Notice ''Muted'']"
    by (simp add: handleLetterKeys_def key_eval example_player_def)
  from main_enter_is_no_op [OF eligible_body enter] main_enter_is_no_op [OF eligible_body m] letter
  show ?thesis by blast
qed

text \<open>
  Claim C10 as stated fails: Ctrl+Shift+Enter on the main keyboard is an
  eligible Enter keydown with location 0, and rule 3 suppresses the default
  and resets the speed.
\<close>

theorem ctrl_shift_enter_counterexample:
  "eligible (Some body) (example_player False 3 (Fin 100) (3 / 2))
   \<and> keyCode (keydown ''Enter'' 13 True True) = 13
   \<and> location (keydown ''Enter'' 13 True True) \<noteq> 3
   \<and> doHotKey (Some body) (example_player False 3 (Fin 100) (3 / 2)) (keydown ''Enter'' 13 True True)
       = Inr [PreventDefault, Speed 1]
   \<and> doHotKey (Some body) (example_player False 3 (Fin 100) (3 / 2)) (keydown ''Enter'' 13 True True)
       \<noteq> Inr []"
proof -
  have run: "doHotKey (Some body) (example_player False 3 (Fin 100) (3 / 2)) (keydown ''Enter'' 13 True True)
       = Inr [PreventDefault, Speed 1]"
    by (simp add: doHotKey_eligible [OF eligible_body] key_eval resetSpeed_def)
  show ?thesis using eligible_body run by (simp add: keydown_def)
qed

section \<open>Seeking to a percentage\<close>

lemma digit_cases:
  "k < 10 \<Longrightarrow> k = 0 \<or> k = 1 \<or> k = 2 \<or> k = 3 \<or> k = 4 \<or> k = 5 \<or> k = 6 \<or> k = 7 \<or> k = 8 \<or> k = (9::nat)"
  by arith

lemma handleLetterKeys_digit:
  assumes "k < 10"
  shows "handleLetterKeys p (digits k)
           = PreventDefault # (if \<not> live (options p) then seekToPercent p (k * 10) else [])"
  using digit_cases [OF assms]
  by (elim disjE) (simp_all add: handleLetterKeys_def key_eval digits.simps parseInt_def)

lemma seekToPercent_known:
  assumes "duration (video p) = Fin D" "D \<noteq> 0" "pct < 100"
  shows "seekToPercent p pct
           = [Seek (Fin (D * real pct / 100)) (Some True), Notice (''Seek: '' @ digits pct @ ''%'')]"
  using assms by (simp add: seekToPercent_def String_int_def String_nat_two_digits)

lemma seekToPercent_unknown: "\<not> truthy (duration (video p)) \<Longrightarrow> seekToPercent p pct = []"
  by (simp add: seekToPercent_def)

lemma keyCodeSwitch_fallback:
  assumes "keyCode e \<notin> {32, 37, 39, 38, 40, 13}"
  shows "keyCodeSwitch p e = handleLetterKeys p (key e)"
  using assms by (simp add: keyCodeSwitch_def)

text \<open>
  Claim C5, as amended. For every eligible event whose key label is the digit
  \<open>k\<close>, that none of the modifier rules 1 to 4 matches and whose key code is
  not one of the key-code rules, with live false: when the duration is a
  positive number \<open>D\<close> the handler calls \<open>seek(D * (k * 10) / 100, true)\<close> and
  then \<open>notice("Seek: p%")\<close> with \<open>p = k * 10\<close>, and the time is neither negative
  nor above \<open>D\<close>; when the duration is unknown (\<open>NaN\<close>, or 0, which the code
  treats alike) it calls neither \<open>seek\<close> nor \<open>notice\<close>.
\<close>

theorem digit_seeks_to_percent:
  assumes "eligible activeElement p" "\<not> modifierCombo e"
    and "keyCode e \<notin> {32, 37, 39, 38, 40, 13}"
    and "k < 10" "key e = digits k" "\<not> live (options p)"
  shows "(duration (video p) = Fin D \<and> 0 < D \<longrightarrow>
            doHotKey activeElement p e
              = Inr [PreventDefault, Seek (Fin (D * real (k * 10) / 100)) (Some True),
                     Notice (''Seek: '' @ digits (k * 10) @ ''%'')]
            \<and> 0 \<le> D * real (k * 10) / 100 \<and> D * real (k * 10) / 100 \<le> D)
       \<and> (\<not> truthy (duration (video p)) \<longrightarrow> doHotKey activeElement p e = Inr [PreventDefault])"
proof -
  have run: "doHotKey activeElement p e = Inr (PreventDefault # seekToPercent p (k * 10))"
    using assms(5,6)
    by (simp add: doHotKey_unmodified [OF assms(1,2)] keyCodeSwitch_fallback [OF assms(3)]
        handleLetterKeys_digit [OF assms(4)])
  have known: "doHotKey activeElement p e
              = Inr [PreventDefault, Seek (Fin (D * real (k * 10) / 100)) (Some True),
                     Notice (''Seek: '' @ digits (k * 10) @ ''%'')]"
    if "duration (video p) = Fin D" "0 < D"
    using that run assms(4) seekToPercent_known [of p D "k * 10"] by simp
  have bounds: "0 \<le> D * real (k * 10) / 100 \<and> D * real (k * 10) / 100 \<le> D" if "0 < D"
  proof -
    have "real (k * 10) \<le> 100" using assms(4) by simp
    then have "D * real (k * 10) \<le> D * 100" using that by (simp add: mult_left_mono)
    moreover have "0 \<le> D * real (k * 10)" using that by simp
    ultimately show ?thesis by simp
  qed
  have unknown: "doHotKey activeElement p e = Inr [PreventDefault]"
    if "\<not> truthy (duration (video p))"
    using that run by (simp add: seekToPercent_unknown)
  from known bounds unknown show ?thesis by blast
qed

theorem digit_seeks_to_percent_witness:
  "doHotKey (Some body) (example_player False 3 (Fin 200) 1) (keydown ''7'' 55 False False)
     = Inr [PreventDefault, Seek (Fin 140) (Some True), Notice ''Seek: 70%'']
   \<and> doHotKey (Some body) (example_player False 3 NaN 1) (keydown ''7'' 55 False False)
     = Inr [PreventDefault]"
proof -
  let ?e = "keydown ''7'' 55 False False"
  have e: "\<not> modifierCombo ?e" "keyCode ?e \<notin> {32, 37, 39, 38, 40, 13}" "key ?e = digits 7"
    by (simp_all add: modifierCombo_def key_eval digits.simps)
  have d: "duration (video (example_player False 3 (Fin 200) 1)) = Fin 200"
    "\<not> live (options (example_player False 3 (Fin 200) 1))"
    "\<not> truthy (duration (video (example_player False 3 NaN 1)))"
    "\<not> live (options (example_player False 3 NaN 1))"
    by (simp_all add: example_player_def)
  have seven: "(7::nat) < 10" and pos: "(0::real) < 200" by simp_all
  have printed: "digits (7 * 10) = ''70''" by (simp add: digits.simps char_of_def bit_0)
  from digit_seeks_to_percent [OF eligible_body e(1,2) seven e(3) d(2), of 200] d(1) pos printed
  have 1: "doHotKey (Some body) (example_player False 3 (Fin 200) 1) ?e
     = Inr [PreventDefault, Seek (Fin 140) (Some True), Notice ''Seek: 70%'']"
    by simp
  from digit_seeks_to_percent [OF eligible_body e(1,2) seven e(3) d(4)] d(3)
  have 2: "doHotKey (Some body) (example_player False 3 NaN 1) ?e = Inr [PreventDefault]"
    by blast
  from 1 2 show ?thesis by blast
qed

text \<open>
  Claim C5 as stated fails: with Ctrl and Shift held, the digit key '7' is an
  eligible digit-key event with live false and duration 200, and rule 3 resets
  the speed; there is no seek and no notice.
\<close>

theorem ctrl_shift_digit_counterexample:
  "eligible (Some body) (example_player False 3 (Fin 200) 1)
   \<and> key (keydown ''7'' 55 True True) = ''7''
   \<and> \<not> live (options (example_player False 3 (Fin 200) 1))
   \<and> doHotKey (Some body) (example_player False 3 (Fin 200) 1) (keydown ''7'' 55 True True)
       = Inr [PreventDefault, Speed 1]
   \<and> Seek (Fin 140) (Some True)
       \<notin> set (calls (doHotKey (Some body) (example_player False 3 (Fin 200) 1)
                          (keydown ''7'' 55 True True)))
   \<and> Notice ''Seek: 70%''
       \<notin> set (calls (doHotKey (Some body) (example_player False 3 (Fin 200) 1)
                          (keydown ''7'' 55 True True)))"
proof -
  have run: "doHotKey (Some body) (example_player False 3 (Fin 200) 1) (keydown ''7'' 55 True True)
       = Inr [PreventDefault, Speed 1]"
    by (simp add: doHotKey_eligible [OF eligible_body] key_eval resetSpeed_def)
  have lv: "\<not> live (options (example_player False 3 (Fin 200) 1))"
    by (simp add: example_player_def)
  show ?thesis using eligible_body run lv by (simp add: keydown_def)
qed

section \<open>Seek times\<close>

lemma seekToPercent_seek:
  assumes "Seek t u \<in> set (seekToPercent p pct)" "pct \<le> 100"
    and "\<not> js_lt (duration (video p)) (Fin 0)"
  shows "\<not> js_lt (duration (video p)) t \<and> \<not> js_lt t (Fin 0)"
proof (cases "duration (video p)")
  case (Fin d)
  with assms(3) have d: "0 \<le> d" by simp
  from assms(1) Fin have t: "t = Fin (real pct / 100 * d)"
    by (simp add: seekToPercent_def split: if_splits)
  have "real pct / 100 \<le> 1" using assms(2) by simp
  then have "real pct / 100 * d \<le> 1 * d" using d by (rule mult_right_mono)
  moreover have "0 \<le> real pct / 100 * d" using d by simp
  ultimately show ?thesis using t Fin by simp
next
  case NaN
  with assms(1) show ?thesis by (simp add: seekToPercent_def)
next
  case NegInf
  with assms(3) show ?thesis by simp
next
  case PosInf
  with assms(1) show ?thesis by (auto simp add: seekToPercent_def split: if_splits)
qed

lemma ordered_duration:
  assumes "0 \<le> ct" "\<not> js_lt dur (Fin ct)"
  shows "\<not> js_lt dur (Fin 0)"
  using assms by (cases dur) auto

lemma parseInt_digit_le:
  assumes "s = ''0'' \<or> s = ''1'' \<or> s = ''2'' \<or> s = ''3'' \<or> s = ''4''
           \<or> s = ''5'' \<or> s = ''6'' \<or> s = ''7'' \<or> s = ''8'' \<or> s = ''9''"
  shows "parseInt s * 10 \<le> 100"
  using assms by (elim disjE) (simp_all add: parseInt_def)

lemma handleLetterKeys_seek_cases:
  assumes "Seek t u \<in> set (handleLetterKeys p k)"
  shows "(toLowerCase k = ''a''
            \<and> t = (if 5 \<le> currentTime (video p) then Fin (currentTime (video p) - 5) else Fin 0))
       \<or> (toLowerCase k = ''d'' \<and> truthy (duration (video p))
            \<and> t = (if js_lt (Fin (currentTime (video p) + 5)) (duration (video p))
                   then Fin (currentTime (video p) + 5)
                   else js_sub (duration (video p)) (Fin 1)))
       \<or> (parseInt (toLowerCase k) * 10 \<le> 100
            \<and> Seek t u \<in> set (seekToPercent p (parseInt (toLowerCase k) * 10)))"
proof -
  have speed: "Seek t u \<notin> set (changeSpeed p d)" for d
    using changeSpeed_no_seek [of "Seek t u" p d] by auto
  show ?thesis
  proof (cases "toLowerCase k = ''a''")
    case True
    with assms show ?thesis
      by (simp add: handleLetterKeys_def Let_def split: if_splits)
  next
    case na: False
    show ?thesis
    proof (cases "toLowerCase k = ''d''")
      case True
      with assms show ?thesis
        by (simp add: handleLetterKeys_def Let_def split: if_splits)
    next
      case nd: False
      let ?s = "toLowerCase k"
      have dig: "?s = ''0'' \<or> ?s = ''1'' \<or> ?s = ''2'' \<or> ?s = ''3'' \<or> ?s = ''4''
           \<or> ?s = ''5'' \<or> ?s = ''6'' \<or> ?s = ''7'' \<or> ?s = ''8'' \<or> ?s = ''9''"
        and sk: "Seek t u \<in> set (seekToPercent p (parseInt ?s * 10))"
        using assms na nd speed
        by (simp_all add: handleLetterKeys_def Let_def split: if_splits)
      from parseInt_digit_le [OF dig] sk show ?thesis by blast
    qed
  qed
qed

lemma handleLetterKeys_seek:
  assumes "Seek t u \<in> set (handleLetterKeys p k)"
    and "0 \<le> currentTime (video p)"
    and "\<not> js_lt (duration (video p)) (Fin (currentTime (video p)))"
  shows "\<not> js_lt (duration (video p)) t
       \<and> (js_lt t (Fin 0) \<longrightarrow> toLowerCase k = ''d'' \<and> js_lt (duration (video p)) (Fin 1))"
proof -
  note nonneg = ordered_duration [OF assms(2,3)]
  from handleLetterKeys_seek_cases [OF assms(1)]
  consider (a) "t = (if 5 \<le> currentTime (video p) then Fin (currentTime (video p) - 5) else Fin 0)"
    | (d) "toLowerCase k = ''d''" "truthy (duration (video p))"
          "t = (if js_lt (Fin (currentTime (video p) + 5)) (duration (video p))
                   then Fin (currentTime (video p) + 5)
                   else js_sub (duration (video p)) (Fin 1))"
    | (digit) pct where "pct \<le> 100" "Seek t u \<in> set (seekToPercent p pct)"
    by blast
  then show ?thesis
  proof cases
    case a
    with assms(2,3) show ?thesis by (cases "duration (video p)") auto
  next
    case d
    with assms(2,3) show ?thesis by (cases "duration (video p)") (auto split: if_splits)
  next
    case digit
    with seekToPercent_seek [OF digit(2,1) nonneg] show ?thesis by blast
  qed
qed

lemma keyCodeSwitch_seek_cases:
  assumes "Seek t u \<in> set (keyCodeSwitch p e)"
  shows "(keyCode e = 37 \<and> t = Fin (currentTime (video p) - 5))
       \<or> (keyCode e = 39 \<and> t = Fin (currentTime (video p) + 5))
       \<or> (keyCode e \<noteq> 37 \<and> keyCode e \<noteq> 39 \<and> Seek t u \<in> set (handleLetterKeys p (key e)))"
  using assms by (auto simp add: keyCodeSwitch_def resetSpeed_def split: if_splits)

lemma doHotKey_seek_in_switch:
  assumes "doHotKey activeElement p e = Inr cs" "Seek t u \<in> set cs"
  shows "Seek t u \<in> set (keyCodeSwitch p e)"
proof -
  have speed: "Seek t u \<notin> set (changeSpeed p d)" for d
    using changeSpeed_no_seek [of "Seek t u" p d] by auto
  have shot: "Seek t u \<notin> set (takeScreenshot p)"
    using takeScreenshot_no_seek [of "Seek t u" p] by auto
  from doHotKey_cases [of activeElement p e] assms show ?thesis
    by (auto simp add: resetSpeed_def speed shot)
qed

text \<open>
  Claim C3, as amended. Take any run of \<open>doHotKey\<close> that calls \<open>seek\<close>, on a
  player whose playback time is not negative and not beyond its duration. Under
  the left-arrow and right-arrow rules the time passed is \<open>currentTime - 5\<close>
  and \<open>currentTime + 5\<close> as they are, with no bound applied. Under every other
  rule ('a', 'd' and the digits) the time passed never exceeds the duration, and
  it is negative at most under 'd' with a duration below 1.
\<close>

theorem seek_time_bounds:
  assumes "doHotKey activeElement p e = Inr cs" "Seek t u \<in> set cs"
    and "0 \<le> currentTime (video p)"
    and "\<not> js_lt (duration (video p)) (Fin (currentTime (video p)))"
  shows "(keyCode e = 37 \<and> t = Fin (currentTime (video p) - 5))
       \<or> (keyCode e = 39 \<and> t = Fin (currentTime (video p) + 5))
       \<or> (keyCode e \<noteq> 37 \<and> keyCode e \<noteq> 39
            \<and> \<not> js_lt (duration (video p)) t
            \<and> (js_lt t (Fin 0) \<longrightarrow> toLowerCase (key e) = ''d'' \<and> js_lt (duration (video p)) (Fin 1)))"
  using keyCodeSwitch_seek_cases [OF doHotKey_seek_in_switch [OF assms(1,2)]]
    handleLetterKeys_seek [OF _ assms(3,4), of t u "key e"]
  by blast


theorem seek_time_bounds_witness:
  "doHotKey (Some body) (example_player False 3 (Fin 100) 1) (keydown ''a'' 65 False False)
     = Inr [PreventDefault, Seek (Fin 0) None, SetAutoHide]
   \<and> doHotKey (Some body) (example_player False 97 (Fin 100) 1) (keydown ''D'' 68 False False)
     = Inr [PreventDefault, Seek (Fin 99) None, SetAutoHide]
   \<and> \<not> js_lt (duration (video (example_player False 97 (Fin 100) 1))) (Fin 99)
   \<and> \<not> js_lt (Fin 99) (Fin 0)"
proof -
  let ?p = "example_player False 97 (Fin 100) 1"
  let ?e = "keydown ''D'' 68 False False"
  have a: "doHotKey (Some body) (example_player False 3 (Fin 100) 1) (keydown ''a'' 65 False False)
     = Inr [PreventDefault, Seek (Fin 0) None, SetAutoHide]"
    unfolding doHotKey_eligible [OF eligible_body]
    by (simp add: keyCodeSwitch_def handleLetterKeys_def key_eval example_player_def)
  have d: "doHotKey (Some body) ?p ?e = Inr [PreventDefault, Seek (Fin 99) None, SetAutoHide]"
    unfolding doHotKey_eligible [OF eligible_body]
    by (simp add: keyCodeSwitch_def handleLetterKeys_def key_eval example_player_def)
  have mem: "Seek (Fin 99) None \<in> set [PreventDefault, Seek (Fin 99) None, SetAutoHide]" by simp
  have state: "0 \<le> currentTime (video ?p)"
    "\<not> js_lt (duration (video ?p)) (Fin (currentTime (video ?p)))"
    by (simp_all add: example_player_def)
  have code: "keyCode ?e \<noteq> 37" "keyCode ?e \<noteq> 39" by (simp_all add: keydown_def)
  have dur: "\<not> js_lt (duration (video ?p)) (Fin 1)" by (simp add: example_player_def)
  from seek_time_bounds [OF d mem state] code dur
  have "\<not> js_lt (duration (video ?p)) (Fin 99) \<and> \<not> js_lt (Fin 99) (Fin 0)" by blast
  with a d show ?thesis by blast
qed

text \<open>
  Claim C3 as stated fails: the left arrow at playback time 3 passes \<open>-2\<close> to
  \<open>seek\<close>, and the right arrow at playback time 97 of 100 passes 102.
\<close>

theorem arrow_seek_counterexample:
  "eligible (Some body) (example_player False 3 (Fin 100) 1)
   \<and> doHotKey (Some body) (example_player False 3 (Fin 100) 1) (keydown ''ArrowLeft'' 37 False False)
       = Inr [PreventDefault, Seek (Fin (- 2)) None, SetAutoHide]
   \<and> js_lt (Fin (- 2)) (Fin 0)
   \<and> eligible (Some body) (example_player False 97 (Fin 100) 1)
   \<and> doHotKey (Some body) (example_player False 97 (Fin 100) 1) (keydown ''ArrowRight'' 39 False False)
       = Inr [PreventDefault, Seek (Fin 102) None, SetAutoHide]
   \<and> js_lt (duration (video (example_player False 97 (Fin 100) 1))) (Fin 102)"
proof -
  have left: "doHotKey (Some body) (example_player False 3 (Fin 100) 1)
       (keydown ''ArrowLeft'' 37 False False) = Inr [PreventDefault, Seek (Fin (- 2)) None, SetAutoHide]"
    unfolding doHotKey_eligible [OF eligible_body]
    by (simp add: keyCodeSwitch_def keydown_def example_player_def)
  have right: "doHotKey (Some body) (example_player False 97 (Fin 100) 1)
       (keydown ''ArrowRight'' 39 False False) = Inr [PreventDefault, Seek (Fin 102) None, SetAutoHide]"
    unfolding doHotKey_eligible [OF eligible_body]
    by (simp add: keyCodeSwitch_def keydown_def example_player_def)
  have over: "js_lt (duration (video (example_player False 97 (Fin 100) 1))) (Fin 102)"
    by (simp add: example_player_def)
  show ?thesis using eligible_body left right over by simp
qed

section \<open>Screenshots\<close>

lemma rmod_bounds:
  assumes "0 < m"
  shows "0 \<le> rmod t m \<and> rmod t m < m"
proof -
  have lo: "of_int \<lfloor>t / m\<rfloor> \<le> t / m" by simp
  have hi: "t / m < of_int \<lfloor>t / m\<rfloor> + 1" by linarith
  have undo: "m * (t / m) = t" using assms by simp
  from assms have "0 \<le> m" by simp
  with lo have "m * of_int \<lfloor>t / m\<rfloor> \<le> m * (t / m)" by (rule mult_left_mono)
  with undo have 1: "m * of_int \<lfloor>t / m\<rfloor> \<le> t" by simp
  from hi assms have "m * (t / m) < m * (of_int \<lfloor>t / m\<rfloor> + 1)"
    by (rule mult_strict_left_mono)
  with undo have 2: "t < m * (of_int \<lfloor>t / m\<rfloor> + 1)" by simp
  from 1 2 show ?thesis by (simp add: rmod_def algebra_simps)
qed

lemma js_rem_nonneg:
  assumes "0 \<le> t" "0 < m"
  shows "js_rem t m = rmod t m"
  using assms by (simp add: js_rem_def rmod_def trunc_def)

lemma floor_rmod:
  assumes "0 < m"
  shows "\<lfloor>rmod t (of_int m)\<rfloor> = \<lfloor>t\<rfloor> mod m"
proof -
  have "\<lfloor>t / of_int m\<rfloor> = \<lfloor>t\<rfloor> div m" using assms by (simp add: floor_divide_real_eq_div)
  then have "rmod t (of_int m) = t - of_int (m * (\<lfloor>t\<rfloor> div m))" by (simp add: rmod_def)
  then have "\<lfloor>rmod t (of_int m)\<rfloor> = \<lfloor>t\<rfloor> - m * (\<lfloor>t\<rfloor> div m)"
    by (simp only: floor_diff_of_int)
  then show ?thesis by (simp add: minus_mult_div_eq_mod)
qed

lemma whole_seconds:
  assumes "0 \<le> t"
  shows "int (HH t) = \<lfloor>t\<rfloor> div 3600 \<and> int (MM t) = \<lfloor>t\<rfloor> mod 3600 div 60 \<and> int (SS t) = \<lfloor>t\<rfloor> mod 60"
proof -
  have n: "0 \<le> \<lfloor>t\<rfloor>" using assms by simp
  have h: "\<lfloor>t / 3600\<rfloor> = \<lfloor>t\<rfloor> div 3600"
    using floor_divide_real_eq_div [of 3600 t] by simp
  have r: "\<lfloor>rmod t 3600\<rfloor> = \<lfloor>t\<rfloor> mod 3600" using floor_rmod [of 3600 t] by simp
  have m: "\<lfloor>rmod t 3600 / 60\<rfloor> = \<lfloor>t\<rfloor> mod 3600 div 60"
    using floor_divide_real_eq_div [of 60 "rmod t 3600"] r by simp
  have s: "\<lfloor>rmod t 60\<rfloor> = \<lfloor>t\<rfloor> mod 60" using floor_rmod [of 60 t] by simp
  have "0 \<le> \<lfloor>t\<rfloor> div 3600" "0 \<le> \<lfloor>t\<rfloor> mod 3600 div 60" "0 \<le> \<lfloor>t\<rfloor> mod 60"
    using n by (simp_all add: pos_imp_zdiv_nonneg_iff)
  then show ?thesis by (simp add: HH_def MM_def SS_def h m s)
qed

lemma minutes_below_60: "(x::int) < 3600 \<Longrightarrow> x div 60 < 60"
  by (simp add: div_less_iff_less_mult)

lemma hms_sum:
  fixes n :: int
  shows "(n div 3600) * 3600 + (n mod 3600 div 60) * 60 + n mod 60 = n"
proof -
  have "(n mod 3600) mod 60 = n mod 60" by (simp add: mod_mod_cancel)
  then have "(n mod 3600 div 60) * 60 + n mod 60 = n mod 3600"
    using div_mult_mod_eq [of "n mod 3600" 60] by simp
  moreover have "(n div 3600) * 3600 + n mod 3600 = n" by (rule div_mult_mod_eq)
  ultimately show ?thesis by (simp only: add.assoc)
qed

lemma clock_fields:
  assumes "0 \<le> t"
  shows "MM t < 60 \<and> SS t < 60 \<and> HH t * 3600 + MM t * 60 + SS t = nat \<lfloor>t\<rfloor>"
proof -
  let ?n = "\<lfloor>t\<rfloor>"
  from whole_seconds [OF assms]
  have h: "int (HH t) = ?n div 3600" and m: "int (MM t) = ?n mod 3600 div 60"
    and s: "int (SS t) = ?n mod 60" by simp_all
  have "?n mod 3600 < 3600" by simp
  then have "?n mod 3600 div 60 < 60" by (rule minutes_below_60)
  then have m60: "int (MM t) < 60" by (simp only: m)
  have "?n mod 60 < 60" by simp
  then have s60: "int (SS t) < 60" by (simp only: s)
  have "int (HH t) * 3600 + int (MM t) * 60 + int (SS t) = ?n"
    by (simp only: h m s hms_sum)
  then have "int (HH t * 3600 + MM t * 60 + SS t) = ?n" by simp
  then have "HH t * 3600 + MM t * 60 + SS t = nat ?n" by (simp only: nat_int [symmetric])
  with m60 s60 show ?thesis by simp
qed

lemma takeScreenshot_eq:
  assumes "0 \<le> currentTime (video p)"
  shows "takeScreenshot p
           = [DrawImage (videoWidth (video p)) (videoHeight (video p)),
              Download (''screenshot_'' @ timestamp (currentTime (video p)) @ ''.png''),
              Notice (''Screenshot: '' @ timestamp (currentTime (video p)))]"
proof -
  let ?t = "currentTime (video p)"
  have h: "String_int (Math_floor (?t / 3600)) = String_nat (HH ?t)"
    using assms by (simp add: String_int_def Math_floor_def HH_def)
  have m: "String_int (Math_floor (js_rem ?t 3600 / 60)) = String_nat (MM ?t)"
    using assms rmod_bounds [of 3600 ?t]
    by (simp add: String_int_def Math_floor_def MM_def js_rem_nonneg)
  have s: "String_int (Math_floor (js_rem ?t 60)) = String_nat (SS ?t)"
    using assms rmod_bounds [of 60 ?t]
    by (simp add: String_int_def Math_floor_def SS_def js_rem_nonneg)
  show ?thesis by (simp add: takeScreenshot_def Let_def h m s timestamp_def)
qed


lemma nat_below: "0 < n \<Longrightarrow> x < int n \<Longrightarrow> nat x < n"
  by linarith

lemma hours_printable:
  assumes "t < 3600 * 10 ^ 21"
  shows "HH t < 10 ^ 21"
proof -
  from assms have "t / 3600 < 10 ^ 21" by simp
  then have "\<lfloor>t / 3600\<rfloor> < int (10 ^ 21)" by (simp add: floor_less_iff)
  moreover have "(0::nat) < 10 ^ 21" by simp
  ultimately have "nat \<lfloor>t / 3600\<rfloor> < 10 ^ 21" by (simp only: nat_below)
  then show ?thesis by (simp only: HH_def)
qed

text \<open>
  Claim C8. For every playback time \<open>t \<ge> 0\<close>, \<open>takeScreenshot\<close> draws the
  frame, offers the download \<open>screenshot_HH-MM-SS.png\<close> and shows the notice
  \<open>Screenshot: HH-MM-SS\<close> with the same timestamp, where \<open>HH\<close> is the floor of
  \<open>t / 3600\<close>, \<open>MM\<close> the floor of \<open>(t mod 3600) / 60\<close> and \<open>SS\<close> the floor of
  \<open>t mod 60\<close>, each printed and padded with zeros to two characters. Minutes
  and seconds are below 60, so they are exactly two decimal digits; the hours
  are plain decimal digits below \<open>10\<^sup>2\<^sup>1\<close> hours; and the three fields add up
  to the whole seconds of \<open>t\<close>.
\<close>

theorem screenshot_named_by_playback_time:
  assumes "0 \<le> currentTime (video p)"
  shows "takeScreenshot p
           = [DrawImage (videoWidth (video p)) (videoHeight (video p)),
              Download (''screenshot_'' @ timestamp (currentTime (video p)) @ ''.png''),
              Notice (''Screenshot: '' @ timestamp (currentTime (video p)))]
       \<and> MM (currentTime (video p)) < 60 \<and> SS (currentTime (video p)) < 60
       \<and> String_nat (MM (currentTime (video p))) = digits (MM (currentTime (video p)))
       \<and> String_nat (SS (currentTime (video p))) = digits (SS (currentTime (video p)))
       \<and> length (padStart2 (digits (MM (currentTime (video p))))) = 2
       \<and> length (padStart2 (digits (SS (currentTime (video p))))) = 2
       \<and> (currentTime (video p) < 3600 * 10 ^ 21 \<longrightarrow>
            String_nat (HH (currentTime (video p))) = digits (HH (currentTime (video p))))
       \<and> HH (currentTime (video p)) * 3600 + MM (currentTime (video p)) * 60
           + SS (currentTime (video p)) = nat \<lfloor>currentTime (video p)\<rfloor>"
proof -
  let ?t = "currentTime (video p)"
  from clock_fields [OF assms]
  have m: "MM ?t < 60" and s: "SS ?t < 60"
    and sum: "HH ?t * 3600 + MM ?t * 60 + SS ?t = nat \<lfloor>?t\<rfloor>" by simp_all
  from m have pm: "String_nat (MM ?t) = digits (MM ?t)" by (simp add: String_nat_two_digits)
  from s have ps: "String_nat (SS ?t) = digits (SS ?t)" by (simp add: String_nat_two_digits)
  from m have lm: "length (padStart2 (digits (MM ?t))) = 2" by (simp add: length_padStart2)
  from s have ls: "length (padStart2 (digits (SS ?t))) = 2" by (simp add: length_padStart2)
  have ph: "?t < 3600 * 10 ^ 21 \<longrightarrow> String_nat (HH ?t) = digits (HH ?t)"
    using hours_printable [of ?t] String_nat_plain [of "HH ?t"] by blast
  from takeScreenshot_eq [OF assms] m s pm ps lm ls ph sum
  show ?thesis by blast
qed

theorem screenshot_named_by_playback_time_witness:
  "takeScreenshot (example_player False (1254 / 10) (Fin 200) 1)
     = [DrawImage 640 360, Download ''screenshot_00-02-05.png'', Notice ''Screenshot: 00-02-05'']"
proof -
  let ?p = "example_player False (1254 / 10) (Fin 200) 1"
  have t: "currentTime (video ?p) = 1254 / 10" and size: "videoWidth (video ?p) = 640"
    "videoHeight (video ?p) = 360"
    by (simp_all add: example_player_def)
  have range: "0 \<le> currentTime (video ?p)"
    by (simp add: example_player_def)
  have stamp: "timestamp (1254 / 10) = ''00-02-05''"
    by (simp add: timestamp_def HH_def MM_def SS_def rmod_def padStart2_def String_nat_def
        digits.simps char_of_def bit_0)
  from screenshot_named_by_playback_time [OF range]
  have "takeScreenshot ?p
           = [DrawImage (videoWidth (video ?p)) (videoHeight (video ?p)),
              Download (''screenshot_'' @ timestamp (currentTime (video ?p)) @ ''.png''),
              Notice (''Screenshot: '' @ timestamp (currentTime (video ?p)))]"
    by blast
  then show ?thesis unfolding t size stamp by simp
qed

end
